theory Spec2Isabelle
  imports Complex_Main
begin

section \<open>API utilities (frontend/src/utils/api.js)\<close>

text \<open>
  JavaScript numbers are modelled as exact reals: the coordinate arithmetic below is the
  arithmetic of the source with rounding left out. Strings are \<open>string\<close>; \<open>null\<close> and
  \<open>undefined\<close> are \<open>None\<close> of an option type; a thrown \<open>Error\<close> is the \<open>Inl\<close> of a sum.
\<close>

datatype js_error = Error string

text \<open>The fields of a browser \<open>File\<close> that the code reads: \<open>file.type\<close> and \<open>file.size\<close>.\<close>

record js_file =
  file_name :: string
  file_type :: string
  file_size :: nat

definition validTypes :: "string list" where
  "validTypes = [''image/jpeg'', ''image/jpg'', ''image/png'']"

definition maxSize :: nat where
  "maxSize = 10 * 1024 * 1024"

definition invalid_format_message :: string where
  "invalid_format_message = ''Invalid file format. Please upload JPEG or PNG images only.''"

definition too_large_message :: string where
  "too_large_message = ''File size too large. Please upload images smaller than 10MB.''"

definition validateImageFile :: "js_file \<Rightarrow> js_error + bool" where
  "validateImageFile f =
     (if file_type f \<notin> set validTypes then Inl (Error invalid_format_message)
      else if file_size f > maxSize then Inl (Error too_large_message)
      else Inr True)"

text \<open>The same check as it stands in the mock utilities (\<open>validateImageFormat\<close>).\<close>

definition validateImageFormat :: "js_file \<Rightarrow> js_error + bool" where
  "validateImageFormat f =
     (if file_type f \<notin> set validTypes then Inl (Error invalid_format_message)
      else if file_size f > maxSize then Inl (Error too_large_message)
      else Inr True)"

text \<open>
  The HTTP client is a parameter: a request either fails with an error whose
  \<open>response?.data?.detail\<close> may be absent, or answers with the response data.
\<close>

datatype axios_error = AxiosError "string option"

record upload_response =
  image_id :: string

record process_response =
  processed_image_url :: string
  processing_time :: string

record api_point =
  api_x :: real
  api_y :: real

text \<open>\<open>detail || fallback\<close>: an absent or empty detail gives the fallback.\<close>

definition detail_or :: "string option \<Rightarrow> string \<Rightarrow> string" where
  "detail_or d fallback = (case d of None \<Rightarrow> fallback | Some m \<Rightarrow> if m = [] then fallback else m)"

definition uploadImage ::
  "(js_file \<Rightarrow> axios_error + upload_response) \<Rightarrow> js_file \<Rightarrow> js_error + upload_response" where
  "uploadImage post f =
     (case post f of
        Inr data \<Rightarrow> Inr data
      | Inl (AxiosError d) \<Rightarrow> Inl (Error (detail_or d ''Failed to upload image'')))"

definition processImage ::
  "(string option \<Rightarrow> api_point list \<Rightarrow> axios_error + process_response) \<Rightarrow>
   string option \<Rightarrow> api_point list \<Rightarrow> js_error + process_response" where
  "processImage post imageId cornerPoints =
     (case post imageId cornerPoints of
        Inr data \<Rightarrow> Inr data
      | Inl (AxiosError d) \<Rightarrow> Inl (Error (detail_or d ''Failed to process image'')))"

definition API :: "string \<Rightarrow> string" where
  "API backend_url = backend_url @ ''/api''"

definition getImageUrl :: "string \<Rightarrow> string \<Rightarrow> string \<Rightarrow> string" where
  "getImageUrl backend_url imageId type = API backend_url @ ''/images/'' @ imageId @ ''/'' @ type"

section \<open>The component state (ImageDistortionCorrector)\<close>

text \<open>
  A corner point \<open>{x, y, id, displayX, displayY}\<close>; the fields \<open>x\<close>, \<open>y\<close> and \<open>id\<close> are
  named \<open>px\<close>, \<open>py\<close> and \<open>pid\<close> here.
\<close>

record corner_point =
  px :: real
  py :: real
  pid :: nat
  displayX :: real
  displayY :: real

record size2d =
  width :: real
  height :: real

record coords =
  xc :: real
  yc :: real

record state =
  imageId :: "string option"
  originalImageUrl :: "string option"
  processedImageUrl :: "string option"
  cornerPoints :: "corner_point list"
  isUploading :: bool
  isProcessing :: bool
  draggedPoint :: "nat option"
  canvasSize :: size2d
  imageSize :: size2d

definition initial_state :: state where
  "initial_state =
     \<lparr>imageId = None, originalImageUrl = None, processedImageUrl = None, cornerPoints = [],
      isUploading = False, isProcessing = False, draggedPoint = None,
      canvasSize = \<lparr>width = 0, height = 0\<rparr>, imageSize = \<lparr>width = 0, height = 0\<rparr>\<rparr>"

text \<open>What a handler does besides updating the state: toasts and requests, in order.\<close>

record toast =
  title :: string
  description :: string
  destructive :: bool

datatype effect =
    Notify toast
  | UploadRequest js_file
  | ProcessRequest "string option" "api_point list"
  | DownloadRequest string

text \<open>\<open>!v\<close> for a value that is \<open>null\<close> or a string: \<open>null\<close> and the empty string are falsy.\<close>

definition falsy :: "string option \<Rightarrow> bool" where
  "falsy v = (case v of None \<Rightarrow> True | Some u \<Rightarrow> u = [])"

definition handleImageUpload ::
  "string \<Rightarrow> (js_file \<Rightarrow> axios_error + upload_response) \<Rightarrow> js_file option \<Rightarrow> state \<Rightarrow>
   state \<times> effect list" where
  "handleImageUpload backend_url post fo s =
     (case fo of
        None \<Rightarrow> (s, [])
      | Some f \<Rightarrow>
          (case validateImageFile f of
             Inl (Error m) \<Rightarrow>
               (s\<lparr>isUploading := False\<rparr>,
                [Notify \<lparr>title = ''Upload failed'', description = m, destructive = True\<rparr>])
           | Inr _ \<Rightarrow>
               (case uploadImage post f of
                  Inl (Error m) \<Rightarrow>
                    (s\<lparr>isUploading := False\<rparr>,
                     [UploadRequest f,
                      Notify \<lparr>title = ''Upload failed'', description = m, destructive = True\<rparr>])
                | Inr result \<Rightarrow>
                    (s\<lparr>imageId := Some (image_id result),
                       originalImageUrl :=
                         Some (getImageUrl backend_url (image_id result) ''original''),
                       cornerPoints := [],
                       processedImageUrl := None,
                       isUploading := False\<rparr>,
                     [UploadRequest f,
                      Notify \<lparr>title = ''Image uploaded successfully!'',
                              description = ''Click on four corners to define the distorted area'',
                              destructive = False\<rparr>]))))"

definition convertToImageCoordinates :: "size2d \<Rightarrow> size2d \<Rightarrow> real \<Rightarrow> real \<Rightarrow> coords" where
  "convertToImageCoordinates cSize iSize canvasX canvasY =
     (if width cSize = 0 \<or> height cSize = 0 then \<lparr>xc = canvasX, yc = canvasY\<rparr>
      else
        let scaleX = width iSize / width cSize;
            scaleY = height iSize / height cSize
        in \<lparr>xc = canvasX * scaleX, yc = canvasY * scaleY\<rparr>)"

definition convertToCanvasCoordinates :: "size2d \<Rightarrow> size2d \<Rightarrow> real \<Rightarrow> real \<Rightarrow> coords" where
  "convertToCanvasCoordinates cSize iSize imageX imageY =
     (if width iSize = 0 \<or> height iSize = 0 then \<lparr>xc = imageX, yc = imageY\<rparr>
      else
        let scaleX = width cSize / width iSize;
            scaleY = height cSize / height iSize
        in \<lparr>xc = imageX * scaleX, yc = imageY * scaleY\<rparr>)"

text \<open>A mouse event, and the bounding rectangle of the canvas it is measured against.\<close>

record mouse_event =
  clientX :: real
  clientY :: real

record dom_rect =
  rect_left :: real
  rect_top :: real

definition all_corners_toast :: toast where
  "all_corners_toast =
     \<lparr>title = ''All corners selected!'', description = ''Ready to process the image'',
      destructive = False\<rparr>"

text \<open>
  The handler of a render closes over the values of that render: \<open>render\<close> is the
  state as that render saw it, from which the handler reads \<open>originalImageUrl\<close>,
  \<open>cornerPoints\<close> (in the guard, for the id of the new point and in the test for the
  notification) and, through \<open>convertToImageCoordinates\<close>, the two sizes. The point is
  appended by the functional update \<open>prev => [...prev, newPoint]\<close>, which is applied to
  the state \<open>s\<close> at the time of the update.
\<close>

definition handleCanvasClick ::
  "dom_rect \<Rightarrow> mouse_event \<Rightarrow> state \<Rightarrow> state \<Rightarrow> state \<times> effect list" where
  "handleCanvasClick rect event render s =
     (if falsy (originalImageUrl render) \<or> length (cornerPoints render) \<ge> 4 then (s, [])
      else
        let canvasX = clientX event - rect_left rect;
            canvasY = clientY event - rect_top rect;
            imageCoords =
              convertToImageCoordinates (canvasSize render) (imageSize render) canvasX canvasY;
            newPoint = \<lparr>px = xc imageCoords, py = yc imageCoords,
                        pid = length (cornerPoints render),
                        displayX = canvasX, displayY = canvasY\<rparr>
        in (s\<lparr>cornerPoints := cornerPoints s @ [newPoint]\<rparr>,
            if length (cornerPoints render) = 3 then [Notify all_corners_toast] else []))"

text \<open>
  \<open>draggedPoint !== pointId\<close>: \<open>draggedPoint\<close> is \<open>null\<close> or a number, \<open>pointId\<close> is
  \<open>undefined\<close> (the handler called with the event alone) or a number; the two are
  strictly equal only when both are the same number.
\<close>

definition strict_eq :: "nat option \<Rightarrow> nat option \<Rightarrow> bool" where
  "strict_eq a b = (case a of None \<Rightarrow> False | Some i \<Rightarrow> (case b of None \<Rightarrow> False | Some j \<Rightarrow> i = j))"

definition handlePointDrag ::
  "dom_rect \<Rightarrow> mouse_event \<Rightarrow> nat option \<Rightarrow> state \<Rightarrow> state" where
  "handlePointDrag rect event pointId s =
     (if \<not> strict_eq (draggedPoint s) pointId then s
      else
        let canvasX = clientX event - rect_left rect;
            canvasY = clientY event - rect_top rect;
            imageCoords = convertToImageCoordinates (canvasSize s) (imageSize s) canvasX canvasY
        in s\<lparr>cornerPoints :=
               map (\<lambda>point.
                      if Some (pid point) = pointId
                      then point\<lparr>px := xc imageCoords, py := yc imageCoords,
                                 displayX := canvasX, displayY := canvasY\<rparr>
                      else point)
                   (cornerPoints s)\<rparr>)"

definition incomplete_toast :: toast where
  "incomplete_toast =
     \<lparr>title = ''Incomplete selection'', description = ''Please select all 4 corner points'',
      destructive = True\<rparr>"

definition processImageDistortion ::
  "(string option \<Rightarrow> api_point list \<Rightarrow> axios_error + process_response) \<Rightarrow> state \<Rightarrow>
   state \<times> effect list" where
  "processImageDistortion post s =
     (if length (cornerPoints s) \<noteq> 4 then (s, [Notify incomplete_toast])
      else
        let apiCornerPoints = map (\<lambda>point. \<lparr>api_x = px point, api_y = py point\<rparr>) (cornerPoints s)
        in (case processImage post (imageId s) apiCornerPoints of
              Inr result \<Rightarrow>
                (s\<lparr>processedImageUrl := Some (processed_image_url result), isProcessing := False\<rparr>,
                 [ProcessRequest (imageId s) apiCornerPoints,
                  Notify \<lparr>title = ''Image processed successfully!'',
                          description = ''Processing completed in '' @ processing_time result,
                          destructive = False\<rparr>])
            | Inl (Error m) \<Rightarrow>
                (s\<lparr>isProcessing := False\<rparr>,
                 [ProcessRequest (imageId s) apiCornerPoints,
                  Notify \<lparr>title = ''Processing failed'', description = m, destructive = True\<rparr>])))"

definition resetSelection :: "state \<Rightarrow> state \<times> effect list" where
  "resetSelection s =
     (s\<lparr>cornerPoints := [], processedImageUrl := None\<rparr>,
      [Notify \<lparr>title = ''Selection reset'',
              description = ''You can now select new corner points'',
              destructive = False\<rparr>])"

section \<open>The corner-set state machine\<close>

text \<open>
  A session is the current state of the component (\<open>live\<close>) together with the state as
  the last render saw it (\<open>rendered\<close>), whose handlers are the ones the next event
  reaches. \<open>Render\<close> is a re-render: the handlers are created anew from the current
  state. \<open>AddPoint\<close> is a click on the canvas. \<open>DragPoint\<close> is a call of
  \<open>handlePointDrag\<close> with the id it is given (\<open>None\<close> when it is called with the event
  alone, as the mouse-move listener of the canvas is): the handler reads \<open>draggedPoint\<close>
  and the sizes of its render and maps over the current points, so it is run on the
  rendered state holding the current points, and the points it returns are stored.
  \<open>Reset\<close> is the reset button, whose handler reads nothing; \<open>BeginDrag\<close> and \<open>EndDrag\<close>
  are the mouse-down on a point and the mouse-up that set and clear \<open>draggedPoint\<close>.
\<close>

record session =
  live :: state
  rendered :: state

datatype event =
    AddPoint dom_rect mouse_event
  | DragPoint dom_rect mouse_event "nat option"
  | Reset
  | BeginDrag nat
  | EndDrag
  | Render

fun step :: "session \<Rightarrow> event \<Rightarrow> session" where
  "step c (AddPoint rect ev) = c\<lparr>live := fst (handleCanvasClick rect ev (rendered c) (live c))\<rparr>"
| "step c (DragPoint rect ev pointId) =
     c\<lparr>live := (live c)\<lparr>cornerPoints :=
          cornerPoints (handlePointDrag rect ev pointId
                          ((rendered c)\<lparr>cornerPoints := cornerPoints (live c)\<rparr>))\<rparr>\<rparr>"
| "step c Reset = c\<lparr>live := fst (resetSelection (live c))\<rparr>"
| "step c (BeginDrag i) = c\<lparr>live := (live c)\<lparr>draggedPoint := Some i\<rparr>\<rparr>"
| "step c EndDrag = c\<lparr>live := (live c)\<lparr>draggedPoint := None\<rparr>\<rparr>"
| "step c Render = c\<lparr>rendered := live c\<rparr>"

definition run :: "session \<Rightarrow> event list \<Rightarrow> session" where
  "run c evs = foldl step c evs"


text \<open>The events \<open>evs\<close> with a re-render after each of them.\<close>

definition rendering_each :: "event list \<Rightarrow> event list" where
  "rendering_each evs = concat (map (\<lambda>e. [e, Render]) evs)"

text \<open>The ids of the stored points are \<open>0, ..., count - 1\<close>, in this order.\<close>

definition ids_contiguous :: "corner_point list \<Rightarrow> bool" where
  "ids_contiguous ps = (map pid ps = [0..<length ps])"

text \<open>The invariant of the corner set: at most four points, ids contiguous from 0.\<close>

definition corner_inv :: "corner_point list \<Rightarrow> bool" where
  "corner_inv ps = (length ps \<le> 4 \<and> ids_contiguous ps)"

text \<open>The point a drag at \<open>event\<close> turns \<open>point\<close> into: the four coordinate fields are written.\<close>

definition dragged_to :: "dom_rect \<Rightarrow> mouse_event \<Rightarrow> state \<Rightarrow> corner_point \<Rightarrow> corner_point" where
  "dragged_to rect event s point =
     point\<lparr>px := xc (convertToImageCoordinates (canvasSize s) (imageSize s)
                      (clientX event - rect_left rect) (clientY event - rect_top rect)),
           py := yc (convertToImageCoordinates (canvasSize s) (imageSize s)
                      (clientX event - rect_left rect) (clientY event - rect_top rect)),
           displayX := clientX event - rect_left rect,
           displayY := clientY event - rect_top rect\<rparr>"

subsection \<open>Concrete sessions used as examples\<close>


definition three_points :: "corner_point list" where
  "three_points =
     [\<lparr>px = 50, py = 80, pid = 0, displayX = 50, displayY = 80\<rparr>,
      \<lparr>px = 350, py = 60, pid = 1, displayX = 350, displayY = 60\<rparr>,
      \<lparr>px = 380, py = 280, pid = 2, displayX = 380, displayY = 280\<rparr>]"

definition fourth_point :: corner_point where
  "fourth_point = \<lparr>px = 30, py = 300, pid = 3, displayX = 30, displayY = 300\<rparr>"

definition loaded_state :: "corner_point list \<Rightarrow> state" where
  "loaded_state ps =
     initial_state\<lparr>imageId := Some ''abc'',
                   originalImageUrl := Some ''http://localhost:8001/api/images/abc/original'',
                   cornerPoints := ps\<rparr>"

definition drag_state :: state where
  "drag_state = (loaded_state three_points)\<lparr>draggedPoint := Some 1\<rparr>"





definition png_file :: js_file where
  "png_file = \<lparr>file_name = ''scan.png'', file_type = ''image/png'', file_size = 9437184\<rparr>"

definition gif_file :: js_file where
  "gif_file = \<lparr>file_name = ''anim.gif'', file_type = ''image/gif'', file_size = 1024\<rparr>"

definition big_file :: js_file where
  "big_file = \<lparr>file_name = ''big.jpg'', file_type = ''image/jpeg'', file_size = 11534336\<rparr>"

section \<open>The perspective-correction contract\<close>

text \<open>
  The backend that computes the transform (\<open>backend/server.py\<close>, which calls
  \<open>cv2.getPerspectiveTransform\<close> as \<open>contracts.md\<close> describes) is not among the sources.
  The definitions of this section are modelled from the specification, section 4.3, with
  exact real arithmetic.
\<close>

text \<open>Modelled from the spec: a linear equation of the system, as its coefficients and its
  right-hand side (the solver of the backend is missing).\<close>

type_synonym equation = "real list \<times> real"

text \<open>Modelled from the spec: the left-hand side of an equation at a vector of values.\<close>

fun dot :: "real list \<Rightarrow> real list \<Rightarrow> real" where
  "dot (c # cs) (x # xs) = c * x + dot cs xs"
| "dot _ _ = 0"

text \<open>Modelled from the spec: an equation holds at a vector of values.\<close>

definition sat :: "real list \<Rightarrow> equation \<Rightarrow> bool" where
  "sat xs e = (dot (fst e) xs = snd e)"

text \<open>Modelled from the spec: the coefficient of the first unknown.\<close>

fun lead :: "real list \<Rightarrow> real" where
  "lead [] = 0"
| "lead (c # cs) = c"

text \<open>Modelled from the spec: the first equation whose leading coefficient is not 0, and
  the other equations.\<close>

fun pivot :: "equation list \<Rightarrow> (equation \<times> equation list) option" where
  "pivot [] = None"
| "pivot (e # es) =
     (if lead (fst e) \<noteq> 0 then Some (e, es)
      else (case pivot es of None \<Rightarrow> None | Some (p, rest) \<Rightarrow> Some (p, e # rest)))"

text \<open>Modelled from the spec: the first unknown is removed from \<open>e\<close> by subtracting a
  multiple of the pivot equation \<open>p\<close>.\<close>

definition eliminate :: "equation \<Rightarrow> equation \<Rightarrow> equation" where
  "eliminate p e =
     (let k = lead (fst e) / lead (fst p)
      in (map2 (\<lambda>a b. a - k * b) (tl (fst e)) (tl (fst p)), snd e - k * snd p))"

text \<open>Modelled from the spec: "solving the linear system", by elimination and back
  substitution over \<open>n\<close> unknowns; \<open>None\<close> when the system is singular.\<close>

fun solve :: "nat \<Rightarrow> equation list \<Rightarrow> real list option" where
  "solve 0 es = (if list_all (\<lambda>e. snd e = 0) es then Some [] else None)"
| "solve (Suc n) es =
     (case pivot es of
        None \<Rightarrow> None
      | Some (p, rest) \<Rightarrow>
          (case solve n (map (eliminate p) rest) of
             None \<Rightarrow> None
           | Some xs \<Rightarrow> Some ((snd p - dot (tl (fst p)) xs) / lead (fst p) # xs)))"

text \<open>Modelled from the spec: the two equations that the correspondence of a source point
  \<open>(x, y)\<close> with a destination point \<open>(u, v)\<close> contributes, in the eight unknown entries of
  the matrix, its bottom-right entry being 1.\<close>

definition homography_equations :: "real \<times> real \<Rightarrow> real \<times> real \<Rightarrow> equation list" where
  "homography_equations s d =
     (case s of (x, y) \<Rightarrow> case d of (u, v) \<Rightarrow>
        [([x, y, 1, 0, 0, 0, - u * x, - u * y], u),
         ([0, 0, 0, x, y, 1, - v * x, - v * y], v)])"

text \<open>Modelled from the spec: a 3 x 3 homogeneous matrix, row by row.\<close>

datatype matrix3 = Matrix3 real real real real real real real real real

text \<open>Modelled from the spec: the conditions under which the contract rejects its input.\<close>

datatype transform_error = MalformedInput | UnsolvableTransform | InvalidDimensions

text \<open>Modelled from the spec: the destination corners \<open>(0,0), (W,0), (W,H), (0,H)\<close>.\<close>

definition destination_corners :: "real \<Rightarrow> real \<Rightarrow> (real \<times> real) list" where
  "destination_corners W H = [(0, 0), (W, 0), (W, H), (0, H)]"

text \<open>Modelled from the spec: step 1 of the algorithm of section 4.3 with its degenerate
  cases (\<open>getPerspectiveTransform\<close> of the missing backend). The spec gives the three
  rejections no order; the checks on the input come first here.\<close>

definition getPerspectiveTransform ::
  "(real \<times> real) list \<Rightarrow> real \<Rightarrow> real \<Rightarrow> transform_error + matrix3" where
  "getPerspectiveTransform src W H =
     (if length src \<noteq> 4 then Inl MalformedInput
      else if W \<le> 0 \<or> H \<le> 0 then Inl InvalidDimensions
      else
        (case solve 8 (concat (map2 homography_equations src (destination_corners W H))) of
           Some [a, b, c, d, e, f, g, h] \<Rightarrow> Inr (Matrix3 a b c d e f g h 1)
         | _ \<Rightarrow> Inl UnsolvableTransform))"

text \<open>Modelled from the spec: applying a matrix to \<open>(x, y, 1)\<close> and dehomogenizing; there
  is no image point when the homogeneous denominator is 0.\<close>

fun apply_homography :: "matrix3 \<Rightarrow> real \<times> real \<Rightarrow> (real \<times> real) option" where
  "apply_homography (Matrix3 a b c d e f g h i) (x, y) =
     (let w = g * x + h * y + i
      in if w = 0 then None else Some ((a * x + b * y + c) / w, (d * x + e * y + f) / w))"

text \<open>The homogeneous denominator of a matrix at a point, and its bottom-right entry.\<close>

fun denominator :: "matrix3 \<Rightarrow> real \<times> real \<Rightarrow> real" where
  "denominator (Matrix3 a b c d e f g h i) (x, y) = g * x + h * y + i"

fun bottom_right :: "matrix3 \<Rightarrow> real" where
  "bottom_right (Matrix3 a b c d e f g h i) = i"

definition identity3 :: matrix3 where
  "identity3 = Matrix3 1 0 0 0 1 0 0 0 1"

text \<open>The homography equations of a correspondence, written out for a whole matrix.\<close>

definition correspondence :: "matrix3 \<Rightarrow> real \<times> real \<Rightarrow> real \<times> real \<Rightarrow> bool" where
  "correspondence M s d =
     (case M of Matrix3 a b c d1 e f g h i \<Rightarrow> case s of (x, y) \<Rightarrow> case d of (u, v) \<Rightarrow>
        a * x + b * y + c = u * (g * x + h * y + i) \<and>
        d1 * x + e * y + f = v * (g * x + h * y + i))"

text \<open>Three points on one line, and four points of which no three are on one line.\<close>

definition collinear3 :: "real \<times> real \<Rightarrow> real \<times> real \<Rightarrow> real \<times> real \<Rightarrow> bool" where
  "collinear3 p q r =
     ((fst q - fst p) * (snd r - snd p) - (fst r - fst p) * (snd q - snd p) = 0)"

fun no_three_collinear :: "(real \<times> real) list \<Rightarrow> bool" where
  "no_three_collinear [p1, p2, p3, p4] =
     (\<not> collinear3 p1 p2 p3 \<and> \<not> collinear3 p1 p2 p4 \<and> \<not> collinear3 p1 p3 p4 \<and> \<not> collinear3 p2 p3 p4)"
| "no_three_collinear _ = False"

text \<open>
  Example inputs: the scenario of the spec's section 8 with its transform; a trapezoid
  whose sides through the first and second, and through the fourth and third point both
  pass through the origin of the image; three points on the line \<open>y = 1\<close> and one off it.
\<close>

definition scenario :: "(real \<times> real) list" where
  "scenario = [(50, 80), (350, 60), (380, 280), (30, 300)]"

definition scenario_matrix :: matrix3 where
  "scenario_matrix =
     Matrix3 (14212440 / 9773693) (1292040 / 9773693) (- (813985200 / 9773693))
             (1114530 / 9773693) (16717950 / 9773693) (- (1393162500 / 9773693))
             (1969 / 19547386) (7941 / 9773693) 1"

definition trapezoid :: "(real \<times> real) list" where
  "trapezoid = [(100, 100), (300, 300), (300, 600), (100, 200)]"

definition three_on_a_line :: "(real \<times> real) list" where
  "three_on_a_line = [(1, 1), (2, 1), (3, 1), (1, 2)]"

section \<open>Lemmas\<close>

lemmas demo_defs = loaded_state_def three_points_def fourth_point_def initial_state_def

subsection \<open>File validation\<close>

lemma validate_cases:
  "validateImageFile f =
     (if file_type f \<notin> set validTypes then Inl (Error invalid_format_message)
      else if file_size f > 10485760 then Inl (Error too_large_message) else Inr True)"
  by (simp add: validateImageFile_def maxSize_def)

lemma messages_differ: "invalid_format_message \<noteq> too_large_message"
  by (simp add: invalid_format_message_def too_large_message_def)

subsection \<open>What a drag changes\<close>

lemma handlePointDrag_points:
  "cornerPoints (handlePointDrag rect ev pointId s) =
     map (\<lambda>p. if draggedPoint s = Some (pid p) \<and> pointId = Some (pid p)
                then dragged_to rect ev s p else p) (cornerPoints s)"
proof (cases "strict_eq (draggedPoint s) pointId")
  case True
  then obtain i where "draggedPoint s = Some i" "pointId = Some i"
    by (auto simp: strict_eq_def split: option.splits)
  then show ?thesis
    by (auto simp: handlePointDrag_def Let_def strict_eq_def dragged_to_def)
next
  case False
  then have "\<And>p. \<not> (draggedPoint s = Some (pid p) \<and> pointId = Some (pid p))"
    by (auto simp: strict_eq_def)
  then have "map (\<lambda>p. if draggedPoint s = Some (pid p) \<and> pointId = Some (pid p)
                then dragged_to rect ev s p else p) (cornerPoints s) = map (\<lambda>p. p) (cornerPoints s)"
    by (intro map_cong) auto
  with False show ?thesis
    by (simp add: handlePointDrag_def)
qed

lemma handlePointDrag_frame:
  "handlePointDrag rect ev pointId s = s\<lparr>cornerPoints := cornerPoints (handlePointDrag rect ev pointId s)\<rparr>"
  by (simp add: handlePointDrag_def Let_def)

subsection \<open>The corner set when every event meets a fresh render\<close>

lemma corner_inv_Nil: "corner_inv []"
  by (simp add: corner_inv_def ids_contiguous_def)

lemma corner_inv_append:
  "corner_inv ps \<Longrightarrow> length ps < 4 \<Longrightarrow> pid p = length ps \<Longrightarrow> corner_inv (ps @ [p])"
  by (simp add: corner_inv_def ids_contiguous_def)

lemma corner_inv_map:
  "corner_inv ps \<Longrightarrow> (\<And>p. pid (g p) = pid p) \<Longrightarrow> corner_inv (map g ps)"
  by (simp add: corner_inv_def ids_contiguous_def o_def)

lemma inv_handleCanvasClick:
  "cornerPoints render = cornerPoints s \<Longrightarrow> corner_inv (cornerPoints s) \<Longrightarrow>
   corner_inv (cornerPoints (fst (handleCanvasClick rect ev render s)))"
  by (auto simp: handleCanvasClick_def Let_def intro!: corner_inv_append)

lemma inv_handlePointDrag:
  "corner_inv (cornerPoints s) \<Longrightarrow> corner_inv (cornerPoints (handlePointDrag rect ev i s))"
  by (auto simp: handlePointDrag_points dragged_to_def intro!: corner_inv_map)

lemma inv_step:
  "cornerPoints (rendered c) = cornerPoints (live c) \<Longrightarrow> corner_inv (cornerPoints (live c)) \<Longrightarrow>
   corner_inv (cornerPoints (live (step c e)))"
  by (cases e)
     (simp_all add: inv_handleCanvasClick inv_handlePointDrag resetSelection_def corner_inv_Nil)

lemma fresh_render_invariant:
  "cornerPoints (rendered c) = cornerPoints (live c) \<Longrightarrow> corner_inv (cornerPoints (live c)) \<Longrightarrow>
   corner_inv (cornerPoints (live (run c (rendering_each evs))))"
proof (induction evs arbitrary: c)
  case Nil
  then show ?case by (simp add: run_def rendering_each_def)
next
  case (Cons e evs)
  let ?c = "step (step c e) Render"
  have r: "cornerPoints (rendered ?c) = cornerPoints (live ?c)" by simp
  have "corner_inv (cornerPoints (live ?c))"
    using inv_step [OF Cons.prems, of e] by simp
  from Cons.IH [OF r this] show ?case by (simp add: run_def rendering_each_def)
qed

lemma handleCanvasClick_fresh_render:
  "(length (cornerPoints s) = 4 \<longrightarrow> handleCanvasClick rect ev s s = (s, [])) \<and>
   (falsy (originalImageUrl s) \<longrightarrow> handleCanvasClick rect ev s s = (s, [])) \<and>
   (snd (handleCanvasClick rect ev s s) = [Notify all_corners_toast] \<longleftrightarrow>
      length (cornerPoints s) < 4 \<and> length (cornerPoints (fst (handleCanvasClick rect ev s s))) = 4) \<and>
   (snd (handleCanvasClick rect ev s s) \<noteq> [Notify all_corners_toast] \<longrightarrow>
      snd (handleCanvasClick rect ev s s) = [])"
  by (auto simp: handleCanvasClick_def Let_def)

subsection \<open>The solver: sound, unique, and failing only on singular systems\<close>

lemma pivot_Some:
  "pivot es = Some (p, rest) \<Longrightarrow> lead (fst p) \<noteq> 0 \<and> set es = insert p (set rest)"
proof (induction es arbitrary: p rest)
  case Nil
  then show ?case by simp
next
  case (Cons e es)
  show ?case
  proof (cases "lead (fst e) \<noteq> 0")
    case True
    with Cons.prems show ?thesis by auto
  next
    case False
    with Cons.prems obtain r where r: "pivot es = Some (p, r)" "rest = e # r"
      by (auto split: option.splits)
    from Cons.IH [OF r(1)] r(2) show ?thesis by auto
  qed
qed

lemma dot_sub:
  "length cs = length qs \<Longrightarrow> length qs = length xs \<Longrightarrow>
   dot (map2 (\<lambda>a b. a - k * b) cs qs) xs = dot cs xs - k * dot qs xs"
proof (induction cs qs xs rule: list_induct3)
  case Nil
  then show ?case by simp
next
  case (Cons c cs q qs x xs)
  then show ?case by (simp add: algebra_simps)
qed

lemma eliminate_length:
  "length (fst e) = Suc n \<Longrightarrow> length (fst p) = Suc n \<Longrightarrow> length (fst (eliminate p e)) = n"
  by (simp add: eliminate_def Let_def)

lemma eliminate_sat:
  assumes e: "length (fst e) = Suc n" and p: "length (fst p) = Suc n" and xs: "length xs = n"
    and nz: "lead (fst p) \<noteq> 0" and sp: "sat (x0 # xs) p"
  shows "sat xs (eliminate p e) \<longleftrightarrow> sat (x0 # xs) e"
proof -
  from e obtain c cs where ce: "fst e = c # cs" "length cs = n"
    by (cases "fst e") auto
  from p obtain q qs where qp: "fst p = q # qs" "length qs = n"
    by (cases "fst p") auto
  from nz qp have q0: "q \<noteq> 0" by simp
  from sp qp have pe: "snd p = q * x0 + dot qs xs" by (simp add: sat_def)
  have l: "length cs = length qs" "length qs = length xs"
    using ce qp xs by simp_all
  have "fst (eliminate p e) = map2 (\<lambda>a b. a - c / q * b) cs qs"
    and se: "snd (eliminate p e) = snd e - c / q * snd p"
    using ce qp by (simp_all add: eliminate_def)
  then have "dot (fst (eliminate p e)) xs = dot cs xs - c / q * dot qs xs"
    by (simp only: dot_sub [OF l])
  with se have "sat xs (eliminate p e) \<longleftrightarrow> dot cs xs - c / q * dot qs xs = snd e - c / q * snd p"
    by (simp only: sat_def)
  also have "\<dots> \<longleftrightarrow> dot cs xs + c / q * (q * x0) = snd e"
    unfolding pe by (auto simp: algebra_simps)
  also have "\<dots> \<longleftrightarrow> c * x0 + dot cs xs = snd e"
    using q0 by (auto simp: algebra_simps)
  finally show ?thesis using ce by (simp add: sat_def)
qed

lemma pivot_sat:
  assumes "length (fst p) = Suc n" "length xs = n" "lead (fst p) \<noteq> 0"
  shows "sat ((snd p - dot (tl (fst p)) xs) / lead (fst p) # xs) p"
proof -
  from assms(1) obtain q qs where "fst p = q # qs" by (cases "fst p") auto
  with assms(3) show ?thesis by (simp add: sat_def)
qed

lemma solve_sound:
  "solve n es = Some xs \<Longrightarrow> list_all (\<lambda>e. length (fst e) = n) es \<Longrightarrow>
   length xs = n \<and> list_all (sat xs) es"
proof (induction n arbitrary: es xs)
  case 0
  then show ?case
    by (auto simp: list_all_iff sat_def split: if_splits)
next
  case (Suc n)
  from Suc.prems(1) obtain p rest ys where
    pv: "pivot es = Some (p, rest)" and
    rec: "solve n (map (eliminate p) rest) = Some ys" and
    xs: "xs = (snd p - dot (tl (fst p)) ys) / lead (fst p) # ys"
    by (auto split: option.splits)
  from pivot_Some [OF pv] have nz: "lead (fst p) \<noteq> 0" and st: "set es = insert p (set rest)"
    by simp_all
  from Suc.prems(2) st have lp: "length (fst p) = Suc n"
    and lr: "\<And>e. e \<in> set rest \<Longrightarrow> length (fst e) = Suc n"
    by (auto simp: list_all_iff)
  have "list_all (\<lambda>e. length (fst e) = n) (map (eliminate p) rest)"
    using lp lr by (simp add: list_all_iff eliminate_length)
  from Suc.IH [OF rec this] have ly: "length ys = n" and sy: "list_all (sat ys) (map (eliminate p) rest)"
    by simp_all
  have sp: "sat xs p" unfolding xs by (rule pivot_sat [OF lp ly nz])
  have "sat xs e" if "e \<in> set rest" for e
  proof -
    from sy that have "sat ys (eliminate p e)" by (simp add: list_all_iff)
    with eliminate_sat [OF lr [OF that] lp ly nz sp [unfolded xs]] show ?thesis
      unfolding xs by simp
  qed
  with sp st ly xs show ?case by (simp add: list_all_iff)
qed

lemma solve_unique:
  "solve n es = Some xs \<Longrightarrow> list_all (\<lambda>e. length (fst e) = n) es \<Longrightarrow>
   length zs = n \<Longrightarrow> list_all (sat zs) es \<Longrightarrow> zs = xs"
proof (induction n arbitrary: es xs zs)
  case 0
  then show ?case by (auto split: if_splits)
next
  case (Suc n)
  from Suc.prems(1) obtain p rest ys where
    pv: "pivot es = Some (p, rest)" and
    rec: "solve n (map (eliminate p) rest) = Some ys" and
    xs: "xs = (snd p - dot (tl (fst p)) ys) / lead (fst p) # ys"
    by (auto split: option.splits)
  from pivot_Some [OF pv] have nz: "lead (fst p) \<noteq> 0" and st: "set es = insert p (set rest)"
    by simp_all
  from Suc.prems(2) st have lp: "length (fst p) = Suc n"
    and lr: "\<And>e. e \<in> set rest \<Longrightarrow> length (fst e) = Suc n"
    by (auto simp: list_all_iff)
  have wf: "list_all (\<lambda>e. length (fst e) = n) (map (eliminate p) rest)"
    using lp lr by (simp add: list_all_iff eliminate_length)
  from Suc.prems(3) obtain z0 zt where zs: "zs = z0 # zt" and lz: "length zt = n"
    by (cases zs) auto
  from Suc.prems(4) st zs have zp: "sat (z0 # zt) p"
    and zr: "\<And>e. e \<in> set rest \<Longrightarrow> sat (z0 # zt) e"
    by (auto simp: list_all_iff)
  have "list_all (sat zt) (map (eliminate p) rest)"
    using eliminate_sat [OF lr lp lz nz zp] zr by (simp add: list_all_iff)
  from Suc.IH [OF rec wf lz this] have zt: "zt = ys" .
  from lp obtain q qs where qp: "fst p = q # qs" by (cases "fst p") auto
  with nz have "q \<noteq> 0" by simp
  with zp qp have "z0 = (snd p - dot qs zt) / q"
    by (simp add: sat_def field_simps)
  with zt qp xs zs show ?case by simp
qed

lemma vanish3:
  fixes p q r :: real
  assumes "p * x1 + q * y1 + r = 0" "p * x2 + q * y2 + r = 0" "p * x3 + q * y3 + r = 0"
    and "\<not> collinear3 (x1, y1) (x2, y2) (x3, y3)"
  shows "p = 0 \<and> q = 0 \<and> r = 0"
proof -
  let ?D = "(x2 - x1) * (y3 - y1) - (x3 - x1) * (y2 - y1)"
  from assms(4) have D: "?D \<noteq> 0" by (simp add: collinear3_def)
  have a: "p * (x2 - x1) + q * (y2 - y1) = 0" using assms(1,2) by (simp add: algebra_simps)
  have b: "p * (x3 - x1) + q * (y3 - y1) = 0" using assms(1,3) by (simp add: algebra_simps)
  have "p * ?D = (p * (x2 - x1) + q * (y2 - y1)) * (y3 - y1) - (p * (x3 - x1) + q * (y3 - y1)) * (y2 - y1)"
    by (simp add: algebra_simps)
  then have "p * ?D = 0" unfolding a b by simp
  with D have p: "p = 0" by simp
  have "q * ?D = (p * (x3 - x1) + q * (y3 - y1)) * (x2 - x1) - (p * (x2 - x1) + q * (y2 - y1)) * (x3 - x1)"
    by (simp add: algebra_simps)
  then have "q * ?D = 0" unfolding a b by simp
  with D have q: "q = 0" by simp
  from p q assms(1) show ?thesis by simp
qed

lemma pivot_None: "pivot es = None \<Longrightarrow> e \<in> set es \<Longrightarrow> lead (fst e) = 0"
  by (induction es) (auto split: if_splits option.splits)

lemma sat_lead_zero:
  assumes "length (fst e) = Suc n" "lead (fst e) = 0"
  shows "sat (z # zs) e \<longleftrightarrow> sat (z' # zs) e"
proof -
  from assms(1) obtain c cs where "fst e = c # cs" by (cases "fst e") auto
  with assms(2) show ?thesis by (simp add: sat_def)
qed

lemma solve_complete:
  "solve n es = None \<Longrightarrow> list_all (\<lambda>e. length (fst e) = n) es \<Longrightarrow>
   \<not> (\<exists>!zs. length zs = n \<and> list_all (sat zs) es)"
proof (induction n arbitrary: es)
  case 0
  from "0.prems"(1) obtain e where e: "e \<in> set es" "snd e \<noteq> 0"
    by (auto simp: list_all_iff split: if_splits)
  with "0.prems"(2) have "fst e = []" by (simp add: list_all_iff)
  with e have "\<not> sat zs e" for zs by (simp add: sat_def)
  with e(1) show ?case by (auto simp: list_all_iff)
next
  case (Suc n)
  show ?case
  proof
    assume "\<exists>!zs. length zs = Suc n \<and> list_all (sat zs) es"
    then obtain zs where zs: "length zs = Suc n" "list_all (sat zs) es"
      and uq: "\<And>ys. length ys = Suc n \<Longrightarrow> list_all (sat ys) es \<Longrightarrow> ys = zs"
      by blast
    from zs(1) obtain z0 zt where z: "zs = z0 # zt" and lz: "length zt = n"
      by (cases zs) auto
    show False
    proof (cases "pivot es")
      case None
      have "list_all (sat ((z0 + 1) # zt)) es"
        unfolding list_all_iff
      proof
        fix e assume e: "e \<in> set es"
        with Suc.prems(2) have "length (fst e) = Suc n" by (simp add: list_all_iff)
        from zs(2) e z have "sat (z0 # zt) e" by (simp add: list_all_iff)
        with sat_lead_zero [OF \<open>length (fst e) = Suc n\<close> pivot_None [OF None e], of z0 zt "z0 + 1"]
        show "sat ((z0 + 1) # zt) e" by simp
      qed
      from uq [OF _ this] lz z show False by simp
    next
      case (Some pr)
      obtain p rest where pr: "pr = (p, rest)" by (cases pr)
      with Some have pv: "pivot es = Some (p, rest)" by simp
      with Suc.prems(1) have rec: "solve n (map (eliminate p) rest) = None"
        by (auto split: option.splits)
      from pivot_Some [OF pv] have nz: "lead (fst p) \<noteq> 0" and st: "set es = insert p (set rest)"
        by simp_all
      from Suc.prems(2) st have lp: "length (fst p) = Suc n"
        and lr: "\<And>e. e \<in> set rest \<Longrightarrow> length (fst e) = Suc n"
        by (auto simp: list_all_iff)
      have wf: "list_all (\<lambda>e. length (fst e) = n) (map (eliminate p) rest)"
        using lp lr by (simp add: list_all_iff eliminate_length)
      from zs(2) st z have zp: "sat (z0 # zt) p" and zr: "\<And>e. e \<in> set rest \<Longrightarrow> sat (z0 # zt) e"
        by (auto simp: list_all_iff)
      have red: "list_all (sat zt) (map (eliminate p) rest)"
        using eliminate_sat [OF lr lp lz nz zp] zr by (simp add: list_all_iff)
      have "yt = zt" if ly: "length yt = n" and sy: "list_all (sat yt) (map (eliminate p) rest)" for yt
      proof -
        let ?y0 = "(snd p - dot (tl (fst p)) yt) / lead (fst p)"
        have yp: "sat (?y0 # yt) p" by (rule pivot_sat [OF lp ly nz])
        have "sat (?y0 # yt) e" if "e \<in> set rest" for e
          using eliminate_sat [OF lr [OF that] lp ly nz yp] sy that by (simp add: list_all_iff)
        with yp st have "list_all (sat (?y0 # yt)) es" by (simp add: list_all_iff)
        from uq [OF _ this] ly z show ?thesis by simp
      qed
      with lz red have "\<exists>!yt. length yt = n \<and> list_all (sat yt) (map (eliminate p) rest)"
        by blast
      with Suc.IH [OF rec wf] show False by simp
    qed
  qed
qed

lemma solve_Some_iff:
  assumes "list_all (\<lambda>e. length (fst e) = n) es"
  shows "(\<exists>xs. solve n es = Some xs) \<longleftrightarrow> (\<exists>!zs. length zs = n \<and> list_all (sat zs) es)"
proof
  assume "\<exists>xs. solve n es = Some xs"
  then obtain xs where xs: "solve n es = Some xs" ..
  from solve_sound [OF xs assms] solve_unique [OF xs assms]
  show "\<exists>!zs. length zs = n \<and> list_all (sat zs) es" by blast
next
  assume "\<exists>!zs. length zs = n \<and> list_all (sat zs) es"
  with solve_complete [OF _ assms] show "\<exists>xs. solve n es = Some xs"
    by (cases "solve n es") auto
qed

subsection \<open>The transform and the correspondences\<close>

lemma length4: "length xs = 4 \<Longrightarrow> \<exists>p1 p2 p3 p4. xs = [p1, p2, p3, p4]"
  by (auto simp: length_Suc_conv eval_nat_numeral)

lemma length8: "length xs = 8 \<Longrightarrow> \<exists>a b c d e f g h. xs = [a, b, c, d, e, f, g, h]"
  by (auto simp: length_Suc_conv eval_nat_numeral)

lemma equations_sat:
  "list_all (sat [a, b, c, d, e, f, g, h]) (homography_equations s t) \<longleftrightarrow>
   correspondence (Matrix3 a b c d e f g h 1) s t"
  by (cases s; cases t) (auto simp: homography_equations_def sat_def correspondence_def algebra_simps)

lemma equations_length:
  "list_all (\<lambda>e. length (fst e) = 8) (homography_equations s t)"
  by (cases s; cases t) (simp add: homography_equations_def)

lemma transform_shape:
  assumes "getPerspectiveTransform src W H = Inr M"
  shows "\<exists>p1 p2 p3 p4 a b c d e f g h.
           src = [p1, p2, p3, p4] \<and> M = Matrix3 a b c d e f g h 1 \<and> 0 < W \<and> 0 < H \<and>
           solve 8 (homography_equations p1 (0, 0) @ homography_equations p2 (W, 0) @
                    homography_equations p3 (W, H) @ homography_equations p4 (0, H))
             = Some [a, b, c, d, e, f, g, h]"
proof -
  from assms have l: "length src = 4" and W: "0 < W" and H: "0 < H"
    by (auto simp: getPerspectiveTransform_def split: if_splits)
  from length4 [OF l] obtain p1 p2 p3 p4 where src: "src = [p1, p2, p3, p4]" by blast
  let ?es = "homography_equations p1 (0, 0) @ homography_equations p2 (W, 0) @
             homography_equations p3 (W, H) @ homography_equations p4 (0, H)"
  have es: "concat (map2 homography_equations src (destination_corners W H)) = ?es"
    by (simp add: src destination_corners_def)
  from assms l W H obtain xs where xs: "solve 8 ?es = Some xs"
    unfolding getPerspectiveTransform_def es by (auto split: option.splits)
  have "list_all (\<lambda>e. length (fst e) = 8) ?es"
    by (simp add: equations_length)
  from solve_sound [OF xs this] have "length xs = 8" by simp
  from length8 [OF this] obtain a b c d e f g h where v: "xs = [a, b, c, d, e, f, g, h]"
    by blast
  from assms l W H have "M = Matrix3 a b c d e f g h 1"
    unfolding getPerspectiveTransform_def es xs v by simp
  with src W H xs v show ?thesis by blast
qed

lemma transform_correspondence:
  assumes "getPerspectiveTransform src W H = Inr M"
  shows "\<exists>p1 p2 p3 p4 a b c d e f g h.
           src = [p1, p2, p3, p4] \<and> M = Matrix3 a b c d e f g h 1 \<and> 0 < W \<and> 0 < H \<and>
           correspondence M p1 (0, 0) \<and> correspondence M p2 (W, 0) \<and>
           correspondence M p3 (W, H) \<and> correspondence M p4 (0, H)"
proof -
  from transform_shape [OF assms] obtain p1 p2 p3 p4 a b c d e f g h where
    src: "src = [p1, p2, p3, p4]" and M: "M = Matrix3 a b c d e f g h 1" and W: "0 < W" "0 < H"
    and sv: "solve 8 (homography_equations p1 (0, 0) @ homography_equations p2 (W, 0) @
                    homography_equations p3 (W, H) @ homography_equations p4 (0, H))
             = Some [a, b, c, d, e, f, g, h]"
    by blast
  have "list_all (\<lambda>e. length (fst e) = 8)
          (homography_equations p1 (0, 0) @ homography_equations p2 (W, 0) @
           homography_equations p3 (W, H) @ homography_equations p4 (0, H))"
    by (simp add: equations_length)
  from solve_sound [OF sv this]
  have "correspondence M p1 (0, 0) \<and> correspondence M p2 (W, 0) \<and>
        correspondence M p3 (W, H) \<and> correspondence M p4 (0, H)"
    by (simp add: equations_sat M)
  with src M W show ?thesis by blast
qed

lemma unsolvable_iff_singular:
  assumes l: "length src = 4" and W: "0 < W" and H: "0 < H"
  shows "getPerspectiveTransform src W H = Inl UnsolvableTransform \<longleftrightarrow>
         \<not> (\<exists>!zs. length zs = 8 \<and>
                 list_all (sat zs) (concat (map2 homography_equations src (destination_corners W H))))"
proof -
  let ?es = "concat (map2 homography_equations src (destination_corners W H))"
  from length4 [OF l] obtain p1 p2 p3 p4 where src: "src = [p1, p2, p3, p4]" by blast
  have wf: "list_all (\<lambda>e. length (fst e) = 8) ?es"
    by (simp add: src destination_corners_def equations_length)
  have "getPerspectiveTransform src W H = Inl UnsolvableTransform \<longleftrightarrow> solve 8 ?es = None"
  proof (cases "solve 8 ?es")
    case None
    with l W H show ?thesis by (simp add: getPerspectiveTransform_def)
  next
    case (Some xs)
    from solve_sound [OF Some wf] have "length xs = 8" by simp
    from length8 [OF this] obtain a b c d e f g h where "xs = [a, b, c, d, e, f, g, h]"
      by blast
    with Some l W H show ?thesis by (simp add: getPerspectiveTransform_def)
  qed
  also have "\<dots> \<longleftrightarrow> \<not> (\<exists>xs. solve 8 ?es = Some xs)" by simp
  also have "\<dots> \<longleftrightarrow> \<not> (\<exists>!zs. length zs = 8 \<and> list_all (sat zs) ?es)"
    by (simp only: solve_Some_iff [OF wf])
  finally show ?thesis .
qed

lemma denominators_nonzero:
  fixes W H :: real
  assumes W: "W \<noteq> 0" and H: "H \<noteq> 0"
    and gp: "no_three_collinear [(x1, y1), (x2, y2), (x3, y3), (x4, y4)]"
    and e1: "a * x1 + b * y1 + c = 0" "d * x1 + e * y1 + f = 0"
    and e2: "a * x2 + b * y2 + c = W * (g * x2 + h * y2 + 1)" "d * x2 + e * y2 + f = 0"
    and e3: "a * x3 + b * y3 + c = W * (g * x3 + h * y3 + 1)"
            "d * x3 + e * y3 + f = H * (g * x3 + h * y3 + 1)"
    and e4: "a * x4 + b * y4 + c = 0" "d * x4 + e * y4 + f = H * (g * x4 + h * y4 + 1)"
  shows "g * x1 + h * y1 + 1 \<noteq> 0 \<and> g * x2 + h * y2 + 1 \<noteq> 0 \<and>
         g * x3 + h * y3 + 1 \<noteq> 0 \<and> g * x4 + h * y4 + 1 \<noteq> 0"
proof -
  from gp have n123: "\<not> collinear3 (x1, y1) (x2, y2) (x3, y3)"
    and n124: "\<not> collinear3 (x1, y1) (x2, y2) (x4, y4)"
    and n134: "\<not> collinear3 (x1, y1) (x3, y3) (x4, y4)"
    and n234: "\<not> collinear3 (x2, y2) (x3, y3) (x4, y4)"
    by simp_all
  have all_zero: False
    if "g * x2 + h * y2 + 1 = 0" "g * x3 + h * y3 + 1 = 0" "g * x4 + h * y4 + 1 = 0"
    using vanish3 [OF that n234] by simp
  have w2: "g * x2 + h * y2 + 1 \<noteq> 0"
  proof
    assume z: "g * x2 + h * y2 + 1 = 0"
    from e2(1) z have "a * x2 + b * y2 + c = 0" by simp
    from vanish3 [OF e1(1) this e4(1) n124] have abc: "a = 0" "b = 0" "c = 0" by simp_all
    from e3(1) abc W have z3: "g * x3 + h * y3 + 1 = 0" by simp
    with e3(2) have "d * x3 + e * y3 + f = 0" by simp
    from vanish3 [OF e1(2) e2(2) this n123] have "d = 0" "e = 0" "f = 0" by simp_all
    with e4(2) H have "g * x4 + h * y4 + 1 = 0" by simp
    from all_zero [OF z z3 this] show False .
  qed
  have w3: "g * x3 + h * y3 + 1 \<noteq> 0"
  proof
    assume z: "g * x3 + h * y3 + 1 = 0"
    from e3(1) z have "a * x3 + b * y3 + c = 0" by simp
    from vanish3 [OF e1(1) this e4(1) n134] have "a = 0" "b = 0" "c = 0" by simp_all
    with e2(1) W have "g * x2 + h * y2 + 1 = 0" by simp
    with w2 show False by simp
  qed
  have w4: "g * x4 + h * y4 + 1 \<noteq> 0"
  proof
    assume z: "g * x4 + h * y4 + 1 = 0"
    from e4(2) z have "d * x4 + e * y4 + f = 0" by simp
    from vanish3 [OF e1(2) e2(2) this n124] have "d = 0" "e = 0" "f = 0" by simp_all
    with e3(2) H have "g * x3 + h * y3 + 1 = 0" by simp
    with w3 show False by simp
  qed
  have w1: "g * x1 + h * y1 + 1 \<noteq> 0"
  proof
    assume z: "g * x1 + h * y1 + 1 = 0"
    have "H * (g * x1 + h * y1 + 1) - (d * x1 + e * y1 + f) = 0"
      unfolding z e1(2) by simp
    then have "(H * g - d) * x1 + (H * h - e) * y1 + (H - f) = 0"
      by (simp add: algebra_simps)
    moreover have "(H * g - d) * x3 + (H * h - e) * y3 + (H - f) = 0"
      using e3(2) by (simp add: algebra_simps)
    moreover have "(H * g - d) * x4 + (H * h - e) * y4 + (H - f) = 0"
      using e4(2) by (simp add: algebra_simps)
    ultimately have "H * g - d = 0 \<and> H * h - e = 0 \<and> H - f = 0"
      using n134 by (rule vanish3)
    then have "d = H * g" "e = H * h" "f = H" by auto
    then have "H * (g * x2 + h * y2 + 1) = d * x2 + e * y2 + f" by (simp add: algebra_simps)
    with e2(2) have "H * (g * x2 + h * y2 + 1) = 0" by simp
    with H w2 show False by simp
  qed
  from w1 w2 w3 w4 show ?thesis by simp
qed

lemmas solve_eval = getPerspectiveTransform_def destination_corners_def homography_equations_def
  eval_nat_numeral eliminate_def

lemma identity_transform:
  "getPerspectiveTransform [(0, 0), (400, 0), (400, 300), (0, 300)] 400 300 = Inr identity3"
  by (simp add: solve_eval identity3_def)

lemma correspondence_maps:
  "correspondence M s t \<Longrightarrow> denominator M s \<noteq> 0 \<Longrightarrow> apply_homography M s = Some t"
  by (cases M; cases s; cases t) (simp add: correspondence_def Let_def field_simps)

lemma maps_correspondence:
  "apply_homography M s = Some t \<Longrightarrow> correspondence M s t"
  by (cases M; cases s; cases t)
     (auto simp: correspondence_def Let_def field_simps split: if_splits)

lemma transform_unique:
  assumes r: "getPerspectiveTransform src W H = Inr M"
    and br: "bottom_right M' = 1"
    and mp: "map (apply_homography M') src = map Some (destination_corners W H)"
  shows "M' = M"
proof -
  from transform_shape [OF r] obtain p1 p2 p3 p4 a b c d e f g h where
    src: "src = [p1, p2, p3, p4]" and M: "M = Matrix3 a b c d e f g h 1"
    and sv: "solve 8 (homography_equations p1 (0, 0) @ homography_equations p2 (W, 0) @
                    homography_equations p3 (W, H) @ homography_equations p4 (0, H))
             = Some [a, b, c, d, e, f, g, h]"
    by blast
  from br obtain a' b' c' d' e' f' g' h' where M': "M' = Matrix3 a' b' c' d' e' f' g' h' 1"
    by (cases M') simp
  from mp have "correspondence M' p1 (0, 0) \<and> correspondence M' p2 (W, 0) \<and>
        correspondence M' p3 (W, H) \<and> correspondence M' p4 (0, H)"
    by (simp add: src destination_corners_def maps_correspondence)
  then have st: "list_all (sat [a', b', c', d', e', f', g', h'])
          (homography_equations p1 (0, 0) @ homography_equations p2 (W, 0) @
           homography_equations p3 (W, H) @ homography_equations p4 (0, H))"
    by (simp add: equations_sat M')
  have wf: "list_all (\<lambda>e. length (fst e) = 8)
          (homography_equations p1 (0, 0) @ homography_equations p2 (W, 0) @
           homography_equations p3 (W, H) @ homography_equations p4 (0, H))"
    by (simp add: equations_length)
  from solve_unique [OF sv wf _ st] have "[a', b', c', d', e', f', g', h'] = [a, b, c, d, e, f, g, h]"
    by simp
  with M M' show ?thesis by simp
qed

lemma transform_maps:
  assumes r: "getPerspectiveTransform src W H = Inr M" and gp: "no_three_collinear src"
  shows "map (apply_homography M) src = map Some (destination_corners W H)"
proof -
  from transform_correspondence [OF r] obtain p1 p2 p3 p4 a b c d e f g h where
    src: "src = [p1, p2, p3, p4]" and M: "M = Matrix3 a b c d e f g h 1"
    and W: "0 < W" and H: "0 < H"
    and c: "correspondence M p1 (0, 0)" "correspondence M p2 (W, 0)"
           "correspondence M p3 (W, H)" "correspondence M p4 (0, H)"
    by blast
  obtain x1 y1 x2 y2 x3 y3 x4 y4 where
    p: "p1 = (x1, y1)" "p2 = (x2, y2)" "p3 = (x3, y3)" "p4 = (x4, y4)"
    by (cases p1; cases p2; cases p3; cases p4) blast
  from W H have nz: "W \<noteq> 0" "H \<noteq> 0" by simp_all
  from gp have gp': "no_three_collinear [(x1, y1), (x2, y2), (x3, y3), (x4, y4)]"
    by (simp only: src p)
  from c have e: "a * x1 + b * y1 + c = 0" "d * x1 + e * y1 + f = 0"
      "a * x2 + b * y2 + c = W * (g * x2 + h * y2 + 1)" "d * x2 + e * y2 + f = 0"
      "a * x3 + b * y3 + c = W * (g * x3 + h * y3 + 1)"
      "d * x3 + e * y3 + f = H * (g * x3 + h * y3 + 1)"
      "a * x4 + b * y4 + c = 0" "d * x4 + e * y4 + f = H * (g * x4 + h * y4 + 1)"
    by (simp_all add: correspondence_def M p)
  from denominators_nonzero [OF nz gp' e]
  have "denominator M p1 \<noteq> 0" "denominator M p2 \<noteq> 0" "denominator M p3 \<noteq> 0"
       "denominator M p4 \<noteq> 0"
    by (simp_all add: M p)
  with c show ?thesis
    by (simp add: src destination_corners_def correspondence_maps)
qed

lemma scenario_transform: "getPerspectiveTransform scenario 400 300 = Inr scenario_matrix"
  by (simp add: solve_eval scenario_def scenario_matrix_def)

lemma trapezoid_transform: "getPerspectiveTransform trapezoid 400 300 = Inl UnsolvableTransform"
  by (simp add: solve_eval trapezoid_def)

lemma three_transform:
  "getPerspectiveTransform three_on_a_line 400 300 = Inr (Matrix3 0 0 0 0 (- 300) 300 0 (- 1) 1)"
  by (simp add: solve_eval three_on_a_line_def)

lemma trapezoid_no_solution:
  "\<not> (correspondence (Matrix3 a b c d e f g h 1) (100, 100) (0, 0) \<and>
      correspondence (Matrix3 a b c d e f g h 1) (300, 300) (400, 0) \<and>
      correspondence (Matrix3 a b c d e f g h 1) (300, 600) (400, 300) \<and>
      correspondence (Matrix3 a b c d e f g h 1) (100, 200) (0, 300))"
  unfolding correspondence_def by (simp; linarith)

section \<open>Theorems\<close>


text \<open>
  C2. With exact arithmetic, for display and image sizes whose widths and heights are all
  positive, converting a display point to image coordinates and back returns the point.
\<close>

theorem coordinate_roundtrip:
  assumes "0 < width d" "0 < height d" "0 < width i" "0 < height i"
  shows "convertToCanvasCoordinates d i
           (xc (convertToImageCoordinates d i x0 y0)) (yc (convertToImageCoordinates d i x0 y0))
         = \<lparr>xc = x0, yc = y0\<rparr>"
  using assms by (simp add: convertToCanvasCoordinates_def convertToImageCoordinates_def Let_def)

text \<open>The round trip on an 800 x 600 display of a 1600 x 900 image.\<close>

theorem coordinate_roundtrip_witness:
  "convertToCanvasCoordinates \<lparr>width = 800, height = 600\<rparr> \<lparr>width = 1600, height = 900\<rparr>
     (xc (convertToImageCoordinates \<lparr>width = 800, height = 600\<rparr> \<lparr>width = 1600, height = 900\<rparr> 120 45))
     (yc (convertToImageCoordinates \<lparr>width = 800, height = 600\<rparr> \<lparr>width = 1600, height = 900\<rparr> 120 45))
   = \<lparr>xc = 120, yc = 45\<rparr>
   \<and> convertToImageCoordinates \<lparr>width = 800, height = 600\<rparr> \<lparr>width = 1600, height = 900\<rparr> 120 45
       = \<lparr>xc = 240, yc = 135 / 2\<rparr>"
  using coordinate_roundtrip [of "\<lparr>width = 800, height = 600\<rparr>" "\<lparr>width = 1600, height = 900\<rparr>" 120 45]
  by (simp add: convertToImageCoordinates_def)

text \<open>
  C3, as the code has it. \<open>convertToImageCoordinates\<close> returns its input unchanged when a
  dimension of the canvas (display) size is 0; \<open>convertToCanvasCoordinates\<close> returns its
  input unchanged when a dimension of the image size is 0: each guard tests the size the
  function divides by.
\<close>

theorem zero_guard:
  "(width d = 0 \<or> height d = 0 \<longrightarrow> convertToImageCoordinates d i x0 y0 = \<lparr>xc = x0, yc = y0\<rparr>) \<and>
   (width i = 0 \<or> height i = 0 \<longrightarrow> convertToCanvasCoordinates d i x0 y0 = \<lparr>xc = x0, yc = y0\<rparr>)"
  by (simp add: convertToCanvasCoordinates_def convertToImageCoordinates_def)

theorem zero_guard_witness:
  "convertToImageCoordinates \<lparr>width = 0, height = 600\<rparr> \<lparr>width = 1600, height = 900\<rparr> 7 9
     = \<lparr>xc = 7, yc = 9\<rparr> \<and>
   convertToCanvasCoordinates \<lparr>width = 800, height = 600\<rparr> \<lparr>width = 1600, height = 0\<rparr> 7 9
     = \<lparr>xc = 7, yc = 9\<rparr>"
  using zero_guard [of "\<lparr>width = 0, height = 600\<rparr>" "\<lparr>width = 1600, height = 900\<rparr>" 7 9]
        zero_guard [of "\<lparr>width = 800, height = 600\<rparr>" "\<lparr>width = 1600, height = 0\<rparr>" 7 9]
  by simp

text \<open>
  C3 as stated fails for \<open>convertToCanvasCoordinates\<close>: with a canvas of size 0 x 0 and an
  image of 100 x 100 the point (5, 5) is sent to (0, 0), not returned unchanged.
\<close>

theorem zero_guard_counterexample:
  "width \<lparr>width = 0, height = 0\<rparr> = 0 \<and>
   convertToCanvasCoordinates \<lparr>width = 0, height = 0\<rparr> \<lparr>width = 100, height = 100\<rparr> 5 5
     = \<lparr>xc = 0, yc = 0\<rparr> \<and>
   convertToCanvasCoordinates \<lparr>width = 0, height = 0\<rparr> \<lparr>width = 100, height = 100\<rparr> 5 5
     \<noteq> \<lparr>xc = 5, yc = 5\<rparr>"
  by (simp add: convertToCanvasCoordinates_def)

text \<open>
  C4, with the condition the contract itself makes. For four source points of which no
  three are on a line: whenever the transform is computed (the normalised linear system is
  not singular), its bottom-right entry is 1, it maps the four source points, in their
  order, exactly to \<open>(0,0), (W,0), (W,H), (0,H)\<close>, and it is the only matrix with
  bottom-right entry 1 that does. For the source points \<open>(0,0), (400,0), (400,300),
  (0,300)\<close> and the destination 400 x 300 the transform is the identity, which maps every
  point to itself.
\<close>

theorem perspective_transform_exact:
  "(getPerspectiveTransform src W H = Inr M \<and> no_three_collinear src \<longrightarrow>
      map (apply_homography M) src = map Some (destination_corners W H) \<and>
      bottom_right M = 1 \<and>
      (\<forall>M'. bottom_right M' = 1 \<and>
            map (apply_homography M') src = map Some (destination_corners W H) \<longrightarrow> M' = M)) \<and>
   getPerspectiveTransform [(0, 0), (400, 0), (400, 300), (0, 300)] 400 300 = Inr identity3 \<and>
   apply_homography identity3 (x, y) = Some (x, y)"
proof -
  have "bottom_right M = 1" if "getPerspectiveTransform src W H = Inr M"
    using transform_shape [OF that] by auto
  moreover have "apply_homography identity3 (x, y) = Some (x, y)"
    by (simp add: identity3_def)
  ultimately show ?thesis
    using transform_maps transform_unique identity_transform by blast
qed

text \<open>The scenario of the spec: its four points are mapped to the corners of 400 x 300.\<close>

theorem perspective_transform_exact_witness:
  "getPerspectiveTransform scenario 400 300 = Inr scenario_matrix \<and>
   no_three_collinear scenario \<and>
   map (apply_homography scenario_matrix) scenario = [Some (0, 0), Some (400, 0), Some (400, 300), Some (0, 300)]"
proof -
  have g: "no_three_collinear scenario"
    by (simp add: scenario_def collinear3_def)
  from perspective_transform_exact [of scenario 400 300 scenario_matrix] scenario_transform g
  show ?thesis by (simp add: destination_corners_def)
qed

text \<open>
  C4 as stated fails. No three points of the trapezoid are on a line, yet no transform is
  computed: the lines through its first two and through its last two points meet in the
  origin of the image, which the transform has to send to infinity, so no matrix with
  bottom-right entry 1 exists. With three points on a line and the fourth off it, a
  matrix is computed, and it has no image for the second point.
\<close>

theorem perspective_transform_counterexample:
  "no_three_collinear trapezoid \<and>
   getPerspectiveTransform trapezoid 400 300 = Inl UnsolvableTransform \<and>
   \<not> collinear3 (three_on_a_line ! 0) (three_on_a_line ! 1) (three_on_a_line ! 3) \<and>
   getPerspectiveTransform three_on_a_line 400 300 = Inr (Matrix3 0 0 0 0 (- 300) 300 0 (- 1) 1) \<and>
   apply_homography (Matrix3 0 0 0 0 (- 300) 300 0 (- 1) 1) (three_on_a_line ! 1) = None"
  using trapezoid_transform three_transform
  by (simp add: trapezoid_def three_on_a_line_def collinear3_def)

text \<open>
  C5. When correction is requested with a number of corner points other than 4,
  \<open>processImageDistortion\<close> leaves the state as it is (the processed result included),
  shows the "Incomplete selection" message, which is marked as an error, and sends no
  processing request, whatever the server would have answered.
\<close>

theorem incomplete_selection:
  "length (cornerPoints s) \<noteq> 4 \<Longrightarrow>
     processImageDistortion post s = (s, [Notify incomplete_toast]) \<and>
     destructive incomplete_toast \<and>
     (\<forall>i ps. ProcessRequest i ps \<notin> set (snd (processImageDistortion post s))) \<and>
     processedImageUrl (fst (processImageDistortion post s)) = processedImageUrl s"
  by (simp add: processImageDistortion_def incomplete_toast_def)

theorem incomplete_selection_witness:
  "length (cornerPoints (loaded_state three_points)) \<noteq> 4 \<and>
   processImageDistortion
       (\<lambda>_ _. Inr \<lparr>processed_image_url = ''/api/images/abc/processed'', processing_time = ''2.3s''\<rparr>)
       (loaded_state three_points)
     = (loaded_state three_points, [Notify incomplete_toast])"
proof -
  have n: "length (cornerPoints (loaded_state three_points)) \<noteq> 4"
    by (simp add: demo_defs)
  from incomplete_selection [OF n] n show ?thesis by simp
qed

text \<open>
  C6. \<open>validateImageFile\<close> throws the invalid-format error exactly when the MIME type is
  none of image/jpeg, image/jpg, image/png; for a valid type it throws the too-large error
  exactly when the size exceeds 10,485,760 bytes; it returns true exactly when the type is
  valid and the size is at most 10,485,760. A 9 MiB image/png file passes, an image/gif
  file is rejected, a file of 11 MiB is rejected. \<open>validateImageFormat\<close> of the mock
  utilities is the same function.
\<close>

theorem validateImageFile_spec:
  "(validateImageFile f = Inl (Error invalid_format_message) \<longleftrightarrow> file_type f \<notin> set validTypes) \<and>
   (file_type f \<in> set validTypes \<longrightarrow>
      (validateImageFile f = Inl (Error too_large_message) \<longleftrightarrow> file_size f > 10485760)) \<and>
   (validateImageFile f = Inr True \<longleftrightarrow> file_type f \<in> set validTypes \<and> file_size f \<le> 10485760) \<and>
   (file_type f = ''image/png'' \<and> file_size f = 9 * 1024 * 1024 \<longrightarrow> validateImageFile f = Inr True) \<and>
   (file_type f = ''image/gif'' \<longrightarrow> validateImageFile f = Inl (Error invalid_format_message)) \<and>
   (file_size f = 11 * 1024 * 1024 \<longrightarrow>
      validateImageFile f \<in> {Inl (Error invalid_format_message), Inl (Error too_large_message)}) \<and>
   set validTypes = {''image/jpeg'', ''image/jpg'', ''image/png''} \<and>
   validateImageFormat f = validateImageFile f"
proof -
  have eq: "validateImageFormat f = validateImageFile f"
    by (simp add: validateImageFormat_def validateImageFile_def)
  have png: "''image/png'' \<in> set validTypes" and gif: "''image/gif'' \<notin> set validTypes"
    and st: "set validTypes = {''image/jpeg'', ''image/jpg'', ''image/png''}"
    by (simp_all add: validTypes_def)
  show ?thesis
    using messages_differ png gif eq st by (auto simp: validate_cases)
qed

theorem validateImageFile_spec_witness:
  "validateImageFile png_file = Inr True \<and>
   validateImageFile gif_file = Inl (Error invalid_format_message) \<and>
   validateImageFile big_file = Inl (Error too_large_message)"
  using validateImageFile_spec [of png_file] validateImageFile_spec [of gif_file]
        validateImageFile_spec [of big_file]
  by (simp add: validTypes_def png_file_def gif_file_def big_file_def)


text \<open>
  C8. A drag keeps the number and the ids of the points. A point whose id is both the
  active dragged id and the id the handler is called for gets its image coordinates and
  display coordinates rewritten and nothing else; every other point is left as it is. If
  no drag is in progress, or the handler is called for another id than the active one, or
  no point has the active id, the whole state is unchanged. No field of the state other
  than the corner set ever changes.
\<close>

theorem drag_point_frame:
  "length (cornerPoints (handlePointDrag rect ev pointId s)) = length (cornerPoints s) \<and>
   (\<forall>k < length (cornerPoints s).
      pid (cornerPoints (handlePointDrag rect ev pointId s) ! k) = pid (cornerPoints s ! k) \<and>
      (draggedPoint s = Some (pid (cornerPoints s ! k)) \<and> pointId = Some (pid (cornerPoints s ! k)) \<longrightarrow>
         cornerPoints (handlePointDrag rect ev pointId s) ! k = dragged_to rect ev s (cornerPoints s ! k)) \<and>
      (\<not> (draggedPoint s = Some (pid (cornerPoints s ! k)) \<and> pointId = Some (pid (cornerPoints s ! k))) \<longrightarrow>
         cornerPoints (handlePointDrag rect ev pointId s) ! k = cornerPoints s ! k)) \<and>
   (draggedPoint s = None \<or> draggedPoint s \<noteq> pointId \<or>
      (\<forall>p \<in> set (cornerPoints s). draggedPoint s \<noteq> Some (pid p)) \<longrightarrow>
      handlePointDrag rect ev pointId s = s) \<and>
   handlePointDrag rect ev pointId s = s\<lparr>cornerPoints := cornerPoints (handlePointDrag rect ev pointId s)\<rparr>"
proof -
  let ?s' = "handlePointDrag rect ev pointId s"
  have len: "length (cornerPoints ?s') = length (cornerPoints s)"
    by (simp add: handlePointDrag_points)
  have pt: "pid (cornerPoints ?s' ! k) = pid (cornerPoints s ! k) \<and>
      (draggedPoint s = Some (pid (cornerPoints s ! k)) \<and> pointId = Some (pid (cornerPoints s ! k)) \<longrightarrow>
         cornerPoints ?s' ! k = dragged_to rect ev s (cornerPoints s ! k)) \<and>
      (\<not> (draggedPoint s = Some (pid (cornerPoints s ! k)) \<and> pointId = Some (pid (cornerPoints s ! k))) \<longrightarrow>
         cornerPoints ?s' ! k = cornerPoints s ! k)" if "k < length (cornerPoints s)" for k
    using that by (simp add: handlePointDrag_points dragged_to_def)
  have same: "?s' = s"
    if "draggedPoint s = None \<or> draggedPoint s \<noteq> pointId \<or>
        (\<forall>p \<in> set (cornerPoints s). draggedPoint s \<noteq> Some (pid p))"
  proof -
    have "cornerPoints ?s' = map (\<lambda>p. p) (cornerPoints s)"
      unfolding handlePointDrag_points using that by (intro map_cong) auto
    then have "cornerPoints ?s' = cornerPoints s" by simp
    with handlePointDrag_frame [of rect ev pointId s] show ?thesis by simp
  qed
  from len pt same handlePointDrag_frame [of rect ev pointId s] show ?thesis by blast
qed

theorem drag_point_frame_witness:
  "cornerPoints (handlePointDrag \<lparr>rect_left = 10, rect_top = 20\<rparr> \<lparr>clientX = 310, clientY = 90\<rparr>
                   (Some 1) drag_state)
     = [\<lparr>px = 50, py = 80, pid = 0, displayX = 50, displayY = 80\<rparr>,
        \<lparr>px = 300, py = 70, pid = 1, displayX = 300, displayY = 70\<rparr>,
        \<lparr>px = 380, py = 280, pid = 2, displayX = 380, displayY = 280\<rparr>] \<and>
   handlePointDrag \<lparr>rect_left = 10, rect_top = 20\<rparr> \<lparr>clientX = 310, clientY = 90\<rparr>
       (Some 1) (loaded_state three_points) = loaded_state three_points \<and>
   handlePointDrag \<lparr>rect_left = 10, rect_top = 20\<rparr> \<lparr>clientX = 310, clientY = 90\<rparr>
       None drag_state = drag_state"
proof -
  let ?r = "\<lparr>rect_left = 10, rect_top = 20\<rparr>" and ?e = "\<lparr>clientX = 310, clientY = 90\<rparr>"
  let ?s' = "handlePointDrag ?r ?e (Some 1) drag_state"
  have cp: "cornerPoints drag_state = three_points" and dp: "draggedPoint drag_state = Some 1"
    by (simp_all add: drag_state_def demo_defs)
  have d: "dragged_to ?r ?e drag_state (three_points ! 1)
             = \<lparr>px = 300, py = 70, pid = 1, displayX = 300, displayY = 70\<rparr>"
    by (simp add: dragged_to_def drag_state_def demo_defs convertToImageCoordinates_def)
  note f = drag_point_frame [of ?r ?e "Some 1" drag_state, unfolded cp dp]
  have len: "length (cornerPoints ?s') = 3"
    using f by (simp add: three_points_def)
  have p0: "cornerPoints ?s' ! 0 = three_points ! 0"
    using f by (simp add: three_points_def)
  have p1: "cornerPoints ?s' ! 1 = dragged_to ?r ?e drag_state (three_points ! 1)"
    using f by (simp add: three_points_def)
  have p2: "cornerPoints ?s' ! 2 = three_points ! 2"
    using f by (simp add: three_points_def)
  have "cornerPoints ?s' = [cornerPoints ?s' ! 0, cornerPoints ?s' ! 1, cornerPoints ?s' ! 2]"
    using len by (auto simp: list_eq_iff_nth_eq less_Suc_eq numeral_3_eq_3 numeral_2_eq_2)
  with p0 p1 p2 d have first: "cornerPoints ?s'
     = [\<lparr>px = 50, py = 80, pid = 0, displayX = 50, displayY = 80\<rparr>,
        \<lparr>px = 300, py = 70, pid = 1, displayX = 300, displayY = 70\<rparr>,
        \<lparr>px = 380, py = 280, pid = 2, displayX = 380, displayY = 280\<rparr>]"
    by (simp add: three_points_def)
  have nodrag: "draggedPoint (loaded_state three_points) = None"
    by (simp add: demo_defs)
  have second: "handlePointDrag ?r ?e (Some 1) (loaded_state three_points) = loaded_state three_points"
    using drag_point_frame [of ?r ?e "Some 1" "loaded_state three_points"] nodrag by simp
  have third: "handlePointDrag ?r ?e None drag_state = drag_state"
    using drag_point_frame [of ?r ?e None drag_state] dp by simp
  from first second third show ?thesis by simp
qed

text \<open>
  C9. \<open>resetSelection\<close> is defined on every state, empties the corner set and clears the
  processed result and touches nothing else; a second reset gives the same state, and the
  same notification, as the first.
\<close>

theorem reset_idempotent:
  "fst (resetSelection (fst (resetSelection s))) = fst (resetSelection s) \<and>
   snd (resetSelection (fst (resetSelection s))) = snd (resetSelection s) \<and>
   cornerPoints (fst (resetSelection s)) = [] \<and>
   processedImageUrl (fst (resetSelection s)) = None \<and>
   fst (resetSelection s) = s\<lparr>cornerPoints := [], processedImageUrl := None\<rparr>"
  by (simp add: resetSelection_def)

text \<open>
  C10. An upload attempt without a file changes nothing. If validation throws, the state
  is the one before the attempt with the uploading flag cleared, the only effect is the
  "Upload failed" notification, and no request is sent; if the request fails, the same
  holds after the request. Only when validation passes and the request succeeds are the
  image id and the original URL replaced and the corner set and processed result cleared.
\<close>

theorem upload_failure_atomic:
  "(fo = None \<longrightarrow> handleImageUpload b post fo s = (s, [])) \<and>
   (\<forall>f m. fo = Some f \<and> validateImageFile f = Inl (Error m) \<longrightarrow>
      handleImageUpload b post fo s =
        (s\<lparr>isUploading := False\<rparr>,
         [Notify \<lparr>title = ''Upload failed'', description = m, destructive = True\<rparr>])) \<and>
   (\<forall>f m. fo = Some f \<and> validateImageFile f = Inr True \<and> uploadImage post f = Inl (Error m) \<longrightarrow>
      handleImageUpload b post fo s =
        (s\<lparr>isUploading := False\<rparr>,
         [UploadRequest f,
          Notify \<lparr>title = ''Upload failed'', description = m, destructive = True\<rparr>])) \<and>
   (\<forall>f r. fo = Some f \<and> validateImageFile f = Inr True \<and> uploadImage post f = Inr r \<longrightarrow>
      fst (handleImageUpload b post fo s) =
        s\<lparr>imageId := Some (image_id r),
          originalImageUrl := Some (getImageUrl b (image_id r) ''original''),
          cornerPoints := [], processedImageUrl := None, isUploading := False\<rparr>) \<and>
   ((\<forall>f r. fo = Some f \<longrightarrow> \<not> (validateImageFile f = Inr True \<and> uploadImage post f = Inr r)) \<longrightarrow>
      imageId (fst (handleImageUpload b post fo s)) = imageId s \<and>
      originalImageUrl (fst (handleImageUpload b post fo s)) = originalImageUrl s \<and>
      cornerPoints (fst (handleImageUpload b post fo s)) = cornerPoints s \<and>
      processedImageUrl (fst (handleImageUpload b post fo s)) = processedImageUrl s)"
proof -
  have v: "validateImageFile f = Inr True \<or> (\<exists>m. validateImageFile f = Inl (Error m))" for f
    by (simp add: validateImageFile_def)
  have u: "(\<exists>r. uploadImage post f = Inr r) \<or> (\<exists>m. uploadImage post f = Inl (Error m))" for f
    by (simp add: uploadImage_def split: sum.splits axios_error.splits)
  show ?thesis
  proof (cases fo)
    case None
    then show ?thesis by (simp add: handleImageUpload_def)
  next
    case (Some f)
    from v [of f] u [of f] Some show ?thesis
      by (auto simp: handleImageUpload_def)
  qed
qed

theorem upload_failure_atomic_witness:
  "handleImageUpload ''http://localhost:8001'' (\<lambda>_. Inr \<lparr>image_id = ''new''\<rparr>) (Some gif_file)
       (loaded_state three_points)
     = ((loaded_state three_points)\<lparr>isUploading := False\<rparr>,
        [Notify \<lparr>title = ''Upload failed'', description = invalid_format_message,
                destructive = True\<rparr>]) \<and>
   handleImageUpload ''http://localhost:8001'' (\<lambda>_. Inl (AxiosError None)) (Some png_file)
       (loaded_state three_points)
     = ((loaded_state three_points)\<lparr>isUploading := False\<rparr>,
        [UploadRequest png_file,
         Notify \<lparr>title = ''Upload failed'', description = ''Failed to upload image'',
                destructive = True\<rparr>]) \<and>
   fst (handleImageUpload ''http://localhost:8001'' (\<lambda>_. Inr \<lparr>image_id = ''new''\<rparr>)
          (Some png_file) (loaded_state three_points))
     = initial_state\<lparr>imageId := Some ''new'',
                     originalImageUrl := Some ''http://localhost:8001/api/images/new/original''\<rparr>"
proof -
  let ?b = "''http://localhost:8001''" and ?s = "loaded_state three_points"
  have v1: "validateImageFile gif_file = Inl (Error invalid_format_message)"
    by (simp add: validateImageFile_def gif_file_def validTypes_def)
  have v2: "validateImageFile png_file = Inr True"
    by (simp add: validateImageFile_def png_file_def validTypes_def maxSize_def)
  have u2: "uploadImage (\<lambda>_. Inl (AxiosError None)) png_file = Inl (Error ''Failed to upload image'')"
    by (simp add: uploadImage_def detail_or_def)
  have u3: "uploadImage (\<lambda>_. Inr \<lparr>image_id = ''new''\<rparr>) png_file = Inr \<lparr>image_id = ''new''\<rparr>"
    by (simp add: uploadImage_def)
  from upload_failure_atomic [of "Some gif_file" ?b "\<lambda>_. Inr \<lparr>image_id = ''new''\<rparr>" ?s] v1
  have a: "handleImageUpload ?b (\<lambda>_. Inr \<lparr>image_id = ''new''\<rparr>) (Some gif_file) ?s
     = (?s\<lparr>isUploading := False\<rparr>,
        [Notify \<lparr>title = ''Upload failed'', description = invalid_format_message,
                destructive = True\<rparr>])"
    by simp
  from upload_failure_atomic [of "Some png_file" ?b "\<lambda>_. Inl (AxiosError None)" ?s] v2 u2
  have b: "handleImageUpload ?b (\<lambda>_. Inl (AxiosError None)) (Some png_file) ?s
     = (?s\<lparr>isUploading := False\<rparr>,
        [UploadRequest png_file,
         Notify \<lparr>title = ''Upload failed'', description = ''Failed to upload image'',
                destructive = True\<rparr>])"
    by simp
  from upload_failure_atomic [of "Some png_file" ?b "\<lambda>_. Inr \<lparr>image_id = ''new''\<rparr>" ?s] v2 u3
  have c: "fst (handleImageUpload ?b (\<lambda>_. Inr \<lparr>image_id = ''new''\<rparr>) (Some png_file) ?s)
     = initial_state\<lparr>imageId := Some ''new'',
                     originalImageUrl := Some ''http://localhost:8001/api/images/new/original''\<rparr>"
    by (simp add: demo_defs getImageUrl_def API_def)
  from a b c show ?thesis by simp
qed

end
